theory Spec2Isabelle
  imports Main
begin

section \<open>Values handed to the serializer\<close>

text \<open>
  JavaScript strings are represented by their UTF-8 bytes and Buffers by their bytes, both
  as \<open>char list\<close>; a chunk pushed into the output stream is then the bytes it puts on the
  wire. The declaration file gives the shape of a field value: a string, a Buffer, a
  Readable, an object \<open>{source, filename, contentType}\<close>, or an array of these. The
  code also reads \<open>filename\<close>, \<open>contentType\<close> and \<open>path\<close> from a Readable.
\<close>

type_synonym bytes = string

datatype ending = Ends | Errors string

record upstream =
  chunks :: "bytes list"
  ending :: ending

record attrs =
  filename :: "string option"
  contentType :: "string option"
  path :: "string option"

datatype jsval =
    Undefined
  | Str string
  | Buffer bytes
  | Readable attrs upstream
  | Obj jsval attrs
  | Arr "jsval list"

datatype error =
    AssertionError
  | NonReadable jsval
  | TypeError
  | ReferenceError
  | UpstreamReadError string
  | DestroyReason "string option"

text \<open>
  What the file uses but does not define: \<open>crypto.randomBytes\<close> (the result of its
  k-th call), \<open>Buffer.prototype.toString\<close>, and \<open>basename\<close>, which the file calls
  without importing it; \<open>basename\<close> may therefore raise.
\<close>

record env =
  randomBytes :: "nat \<Rightarrow> bytes"
  bufferToString :: "bytes \<Rightarrow> string"
  basename :: "string \<Rightarrow> error + string"

definition truthy :: "jsval \<Rightarrow> bool" where
  "truthy v = (case v of Undefined \<Rightarrow> False | Str s \<Rightarrow> s \<noteq> [] | _ \<Rightarrow> True)"

definition truthy_str :: "string option \<Rightarrow> bool" where
  "truthy_str x = (case x of None \<Rightarrow> False | Some s \<Rightarrow> s \<noteq> [])"

text \<open>\<open>file.length\<close> as a condition: a non-zero length of a string, Buffer or array.\<close>

definition has_length :: "jsval \<Rightarrow> bool" where
  "has_length v =
     (case v of Str s \<Rightarrow> s \<noteq> [] | Buffer b \<Rightarrow> b \<noteq> [] | Arr xs \<Rightarrow> xs \<noteq> [] | _ \<Rightarrow> False)"

definition is_Readable :: "jsval \<Rightarrow> bool" where
  "is_Readable v = (case v of Readable a u \<Rightarrow> True | _ \<Rightarrow> False)"

text \<open>The optional properties of a value; a string, a Buffer or an array has none of them.\<close>

definition get_attrs :: "jsval \<Rightarrow> attrs" where
  "get_attrs v =
     (case v of Readable a u \<Rightarrow> a | Obj src a \<Rightarrow> a
      | _ \<Rightarrow> \<lparr>filename = None, contentType = None, path = None\<rparr>)"

section \<open>Strings\<close>

definition dq :: string where
  "dq = [CHR 0x22]"

definition lineBreak :: string where
  "lineBreak = [CHR 0x0D, CHR 0x0A]"

definition hex_digit :: "nat \<Rightarrow> char" where
  "hex_digit n = ''0123456789ABCDEF'' ! (n mod 16)"

definition unreserved :: "char \<Rightarrow> bool" where
  "unreserved c =
     (let n = (of_char c :: nat) in
        (65 \<le> n \<and> n \<le> 90) \<or> (97 \<le> n \<and> n \<le> 122) \<or> (48 \<le> n \<and> n \<le> 57)
        \<or> c \<in> set ''-_.!~*'()'')"

definition encode_char :: "char \<Rightarrow> string" where
  "encode_char c =
     (if unreserved c then [c]
      else [CHR ''%'', hex_digit ((of_char c :: nat) div 16), hex_digit (of_char c :: nat)])"

definition encodeURIComponent :: "string \<Rightarrow> string" where
  "encodeURIComponent s = concat (map encode_char s)"

definition b64_digit :: "nat \<Rightarrow> char" where
  "b64_digit n =
     ''ABCDEFGHIJKLMNOPQRSTUVWXYZabcdefghijklmnopqrstuvwxyz0123456789+/'' ! (n mod 64)"

fun base64 :: "bytes \<Rightarrow> string" where
  "base64 (a # b # c # rest) =
     (let x = (of_char a :: nat); y = (of_char b :: nat); z = (of_char c :: nat) in
        [b64_digit (x div 4), b64_digit ((x mod 4) * 16 + y div 16),
         b64_digit ((y mod 16) * 4 + z div 64), b64_digit z] @ base64 rest)"
| "base64 [a, b] =
     (let x = (of_char a :: nat); y = (of_char b :: nat) in
        [b64_digit (x div 4), b64_digit ((x mod 4) * 16 + y div 16),
         b64_digit ((y mod 16) * 4), CHR ''=''])"
| "base64 [a] =
     (let x = (of_char a :: nat) in
        [b64_digit (x div 4), b64_digit ((x mod 4) * 16), CHR ''='', CHR ''=''])"
| "base64 [] = []"

fun show_nat :: "nat \<Rightarrow> string" where
  "show_nat n =
     (if n < 10 then [''0123456789'' ! n]
      else show_nat (n div 10) @ [''0123456789'' ! (n mod 10)])"

text \<open>\<open>Array.prototype.join\<close>: the separator goes before every element but the first.\<close>

fun join_from :: "string \<Rightarrow> string list \<Rightarrow> string \<Rightarrow> string" where
  "join_from sep [] r = r"
| "join_from sep (x # xs) r = join_from sep xs (r @ sep @ x)"

definition join :: "string \<Rightarrow> string list \<Rightarrow> string" where
  "join sep xs = (case xs of [] \<Rightarrow> [] | x # rest \<Rightarrow> join_from sep rest x)"

text \<open>
  \<open>ToString\<close>, as a template literal and \<open>encodeURIComponent\<close> apply it: an array joins
  its elements with a comma, \<open>undefined\<close> elements giving the empty string; an object
  without a \<open>toString\<close> of its own gives \<open>[object Object]\<close>.
\<close>

fun toString :: "env \<Rightarrow> jsval \<Rightarrow> string" where
  "toString E Undefined = ''undefined''"
| "toString E (Str s) = s"
| "toString E (Buffer b) = bufferToString E b"
| "toString E (Readable a u) = ''[object Object]''"
| "toString E (Obj src a) = ''[object Object]''"
| "toString E (Arr xs) =
     join '','' (map (\<lambda>x. if x = Undefined then [] else toString E x) xs)"

section \<open>The multipart stream\<close>

text \<open>
  The state of a \<open>FormDataStream\<close>: the fields of the class, the arguments of every
  \<open>this.push\<close> call in call order (\<open>EOF\<close> is \<open>push(null)\<close>), and the suspended
  activation of \<open>readNext\<close>. \<open>calls\<close> counts the calls of \<open>randomBytes\<close> and
  \<open>pulled\<close> the chunks taken from upstream sources; neither is a field of the class.
\<close>

text \<open>
  The activation of \<open>readNext\<close> rests at one of its \<open>await\<close>s. \<open>Settled r fr\<close>: the
  promise of \<open>streamFileField\<close> it awaits is fulfilled (\<open>None\<close>) or rejected.
  \<open>Draining u fr\<close>: the loop of \<open>streamFileField\<close> awaits the next chunk of
  \<open>readStream\<close> on the upstream source \<open>u\<close>. \<open>AwaitResume p u fr\<close>: the loop awaits the
  promise of \<open>onceResume\<close>. \<open>Failed e\<close>: the promise of \<open>readNext\<close> is rejected.
  The frame tells where \<open>readNext\<close> goes on after \<open>streamFileField\<close>: to its end, or
  into the loop over a list, with the field name, the nested boundary,
  \<open>filenameIndex\<close> and the items left. The slot \<open>kOnceResume\<close> is empty, holds a
  pending promise, or holds the rejected promise that \<open>_destroy\<close> leaves in it.
\<close>

datatype frame = Top | InList string string nat "jsval list"

datatype pstate = Pending | Resolved | Rejected error

datatype task =
    NoTask
  | Settled "error option" frame
  | Draining upstream frame
  | AwaitResume pstate upstream frame
  | Failed error

datatype slot = NoWaiter | Armed | Stale error

datatype chunk = Chunk jsval | EOF

record fds =
  iterator :: "(string \<times> jsval) list"
  boundary :: string
  kReading :: bool
  kReadNext :: bool
  kOnceResume :: slot
  kChunkBuffer :: string
  pushed :: "chunk list"
  task :: task
  calls :: nat
  pulled :: nat

datatype 'a flow = Suspend 'a | Proceed 'a

definition defaultContentType :: string where
  "defaultContentType = ''text/plain''"

definition defaultStreamContentType :: string where
  "defaultStreamContentType = ''application/octet-stream''"

text \<open>\<open>x || d\<close> for an optional string.\<close>

definition str_or :: "string option \<Rightarrow> string \<Rightarrow> string" where
  "str_or x d = (case x of None \<Rightarrow> d | Some s \<Rightarrow> if s \<noteq> [] then s else d)"

definition prop_source :: "jsval \<Rightarrow> jsval" where
  "prop_source v = (case v of Obj src a \<Rightarrow> src | _ \<Rightarrow> Undefined)"

definition push :: "chunk \<Rightarrow> fds \<Rightarrow> fds" where
  "push c s = s\<lparr>pushed := pushed s @ [c]\<rparr>"

definition pushChunk :: "string \<Rightarrow> fds \<Rightarrow> fds" where
  "pushChunk c s = s\<lparr>kChunkBuffer := kChunkBuffer s @ c\<rparr>"

definition flushChunks :: "fds \<Rightarrow> fds" where
  "flushChunks s = (push (Chunk (Str (kChunkBuffer s))) s)\<lparr>kChunkBuffer := []\<rparr>"

definition generateBoundary :: "env \<Rightarrow> fds \<Rightarrow> string \<times> fds" where
  "generateBoundary E s =
     (replicate 16 CHR ''-'' @ base64 (randomBytes E (calls s)), s\<lparr>calls := Suc (calls s)\<rparr>)"

text \<open>
  \<open>streamFileField\<close> up to its first suspension. A \<open>throw\<close> before that rejects the
  promise the caller awaits: \<open>Settled (Some e)\<close>. \<open>fr\<close> is the caller's continuation.
\<close>

definition streamFileField :: "jsval \<Rightarrow> string option \<Rightarrow> frame \<Rightarrow> fds \<Rightarrow> fds" where
  "streamFileField file ct fr s =
     (if \<not> truthy file then s\<lparr>task := Settled (Some AssertionError) fr\<rparr>
      else if has_length file then
        (let s = pushChunk (''Content-Type: '' @ str_or ct defaultContentType) s;
             s = pushChunk (lineBreak @ lineBreak) s;
             s = flushChunks s;
             s = push (Chunk file) s;
             s = push (Chunk (Str lineBreak)) s
         in s\<lparr>task := Settled None fr\<rparr>)
      else
        (case file of
           Readable a u \<Rightarrow>
             (let s = pushChunk (''Content-Type: '' @ str_or ct defaultStreamContentType) s;
                  s = pushChunk (lineBreak @ lineBreak) s;
                  s = flushChunks s
              in s\<lparr>task := Draining u fr\<rparr>)
         | _ \<Rightarrow> s\<lparr>task := Settled (Some (NonReadable file)) fr\<rparr>))"

text \<open>
  One turn of the \<open>for (const file of content)\<close> loop, up to the \<open>await\<close> of the item;
  with no item left, the closing delimiter of the nested part goes to the accumulator and
  control proceeds to the test of \<open>kReadNext\<close>.
\<close>

fun listLoop :: "env \<Rightarrow> string \<Rightarrow> string \<Rightarrow> nat \<Rightarrow> jsval list \<Rightarrow> fds \<Rightarrow> fds flow" where
  "listLoop E name sub idx [] s =
     Proceed (pushChunk lineBreak (pushChunk (''--'' @ sub @ ''--'') s))"
| "listLoop E name sub idx (file # rest) s =
     (let s = pushChunk (''--'' @ sub) s;
          s = pushChunk lineBreak s
      in
        if is_Readable file then
          (case basename E (str_or (path (get_attrs file)) []) of
             Inl e \<Rightarrow> Suspend (s\<lparr>task := Failed e\<rparr>)
           | Inr b \<Rightarrow>
               (let fn = (if b \<noteq> [] then b else name @ ''-'' @ show_nat idx);
                    idx = (if b \<noteq> [] then idx else Suc idx);
                    s = pushChunk (''Content-Disposition: file; filename='' @ dq
                                     @ encodeURIComponent fn @ dq) s;
                    s = pushChunk lineBreak s
                in Suspend (streamFileField file None (InList name sub idx rest) s)))
        else if file = Undefined then Suspend (s\<lparr>task := Failed TypeError\<rparr>)
        else
          (let a = get_attrs file;
               fn = (if truthy_str (filename a) then str_or (filename a) []
                     else name @ ''-'' @ show_nat idx);
               idx = (if truthy_str (filename a) then idx else Suc idx);
               s = pushChunk (''Content-Disposition: file; filename='' @ dq
                                @ encodeURIComponent fn @ dq) s;
               s = pushChunk lineBreak s
           in Suspend (streamFileField (prop_source file) (contentType a)
                         (InList name sub idx rest) s)))"

text \<open>\<open>content.filename || basename(content.path || "") || name\<close>\<close>

definition resolveFilename :: "env \<Rightarrow> attrs \<Rightarrow> string \<Rightarrow> error + string" where
  "resolveFilename E a name =
     (if truthy_str (filename a) then Inr (str_or (filename a) [])
      else (case basename E (str_or (path a) []) of
              Inl e \<Rightarrow> Inl e
            | Inr b \<Rightarrow> Inr (if b \<noteq> [] then b else name)))"

text \<open>The body of \<open>readNext\<close> for one entry of the iterator, up to the first \<open>await\<close>.\<close>

definition writeEntry :: "env \<Rightarrow> string \<Rightarrow> jsval \<Rightarrow> fds \<Rightarrow> fds flow" where
  "writeEntry E name content s =
     (let s = pushChunk (''--'' @ boundary s) s;
          s = pushChunk lineBreak s;
          s = pushChunk (''Content-Disposition: form-data; name='' @ dq
                           @ encodeURIComponent name @ dq) s
      in
        if content = Undefined then Suspend (s\<lparr>task := Failed TypeError\<rparr>)
        else if is_Readable content \<or> truthy (prop_source content) then
          (let source = (if truthy (prop_source content) then prop_source content
                         else content)
           in case resolveFilename E (get_attrs content) name of
                Inl e \<Rightarrow> Suspend (s\<lparr>task := Failed e\<rparr>)
              | Inr fn \<Rightarrow>
                  (let s = pushChunk (''; filename='' @ dq @ encodeURIComponent fn @ dq) s;
                       s = pushChunk lineBreak s
                   in Suspend (streamFileField source (contentType (get_attrs content))
                                 Top s)))
        else
          (let s = pushChunk lineBreak s
           in case content of
                Arr items \<Rightarrow>
                  (let (sub, s) = generateBoundary E s;
                       s = pushChunk (''Content-Type: multipart/mixed; boundary='' @ sub) s;
                       s = pushChunk (lineBreak @ lineBreak) s
                   in listLoop E name sub 0 items s)
              | _ \<Rightarrow> Suspend (streamFileField content None Top s)))"

text \<open>
  \<open>readNext\<close> up to its first suspension. The recursion is the call
  \<open>return this.readNext()\<close> that is reached without an \<open>await\<close> in between, after an
  empty array; it runs on the rest of the iterator.
\<close>

fun readNextFrom :: "env \<Rightarrow> (string \<times> jsval) list \<Rightarrow> fds \<Rightarrow> fds" where
  "readNextFrom E [] s =
     (let s = s\<lparr>kReading := True\<rparr>;
          s = push (Chunk (Str (''--'' @ boundary s @ ''--''))) s;
          s = s\<lparr>kReading := False\<rparr>
      in (push EOF s)\<lparr>task := NoTask\<rparr>)"
| "readNextFrom E ((name, content) # rest) s =
     (case writeEntry E name content (s\<lparr>kReading := True, iterator := rest\<rparr>) of
        Suspend s' \<Rightarrow> s'
      | Proceed s' \<Rightarrow>
          if kReadNext s' then readNextFrom E rest s'
          else s'\<lparr>kReading := False, task := NoTask\<rparr>)"

definition readNext :: "env \<Rightarrow> fds \<Rightarrow> fds" where
  "readNext E s = readNextFrom E (iterator s) s"

text \<open>The end of \<open>readNext\<close>: \<open>if(this[kReadNext]) return this.readNext(); else ...\<close>\<close>

definition afterField :: "env \<Rightarrow> fds \<Rightarrow> fds" where
  "afterField E s =
     (if kReadNext s then readNext E s else s\<lparr>kReading := False, task := NoTask\<rparr>)"

text \<open>
  \<open>onceResume\<close>: the promise already in the slot, or a new pending one. The caller
  awaits the promise returned.
\<close>

definition onceResume :: "fds \<Rightarrow> pstate \<times> fds" where
  "onceResume s =
     (case kOnceResume s of
        NoWaiter \<Rightarrow> (Pending, s\<lparr>kOnceResume := Armed\<rparr>)
      | Armed \<Rightarrow> (Pending, s)
      | Stale e \<Rightarrow> (Rejected e, s))"

text \<open>Settling the promise a suspended \<open>streamFileField\<close> awaits.\<close>

definition settle :: "pstate \<Rightarrow> task \<Rightarrow> task" where
  "settle p t = (case t of AwaitResume Pending u fr \<Rightarrow> AwaitResume p u fr | _ \<Rightarrow> t)"

text \<open>\<open>_read\<close> and \<open>_destroy\<close>, as the platform calls them.\<close>

definition FDS_read :: "env \<Rightarrow> fds \<Rightarrow> fds" where
  "FDS_read E s =
     (if kReading s then
        (case kOnceResume s of
           NoWaiter \<Rightarrow> s\<lparr>kReadNext := True\<rparr>
         | Armed \<Rightarrow> s\<lparr>kOnceResume := NoWaiter, task := settle Resolved (task s)\<rparr>
         | Stale e \<Rightarrow> s\<lparr>kOnceResume := NoWaiter\<rparr>)
      else readNext E s)"

definition FDS_destroy :: "error \<Rightarrow> fds \<Rightarrow> fds" where
  "FDS_destroy err s =
     (case kOnceResume s of
        NoWaiter \<Rightarrow> s
      | Armed \<Rightarrow> s\<lparr>kOnceResume := Stale err, task := settle (Rejected err) (task s)\<rparr>
      | Stale e \<Rightarrow> s)"

text \<open>
  The event loop resumes the suspended activation, which runs to its next suspension.
  \<open>ok\<close> is what \<open>this.push(chunk)\<close> returns for a chunk of an upstream source:
  \<open>False\<close> reports the downstream buffer as full. The step that hands a chunk to the
  loop body is the step that takes it from the upstream source.
\<close>

fun resume :: "env \<Rightarrow> bool \<Rightarrow> task \<Rightarrow> fds \<Rightarrow> fds" where
  "resume E ok NoTask s = s"
| "resume E ok (Failed e) s = s"
| "resume E ok (Settled (Some e) fr) s = s\<lparr>task := Failed e\<rparr>"
| "resume E ok (Settled None Top) s = afterField E s"
| "resume E ok (Settled None (InList name sub idx items)) s =
     (case listLoop E name sub idx items s of
        Suspend s' \<Rightarrow> s'
      | Proceed s' \<Rightarrow> afterField E s')"
| "resume E ok (Draining u fr) s =
     (case chunks u of
        c # cs \<Rightarrow>
          (let s = push (Chunk (Buffer c)) (s\<lparr>pulled := Suc (pulled s)\<rparr>)
           in if ok then s\<lparr>task := Draining (u\<lparr>chunks := cs\<rparr>) fr\<rparr>
              else (let (p, s) = onceResume s
                    in s\<lparr>task := AwaitResume p (u\<lparr>chunks := cs\<rparr>) fr\<rparr>))
      | [] \<Rightarrow>
          (case ending u of
             Ends \<Rightarrow> (push (Chunk (Str lineBreak)) s)\<lparr>task := Settled None fr\<rparr>
           | Errors m \<Rightarrow> s\<lparr>task := Settled (Some (UpstreamReadError m)) fr\<rparr>))"
| "resume E ok (AwaitResume Pending u fr) s = s"
| "resume E ok (AwaitResume Resolved u fr) s = s\<lparr>task := Draining u fr\<rparr>"
| "resume E ok (AwaitResume (Rejected e) u fr) s = s\<lparr>task := Settled (Some e) fr\<rparr>"

text \<open>
  The platform calls \<open>_read\<close> (a pull of the consumer) and \<open>_destroy\<close>, and the event
  loop resumes the activation; each runs to the next \<open>await\<close> without interleaving.
\<close>

datatype event = Pull | Destroy error | Tick bool

fun step :: "env \<Rightarrow> event \<Rightarrow> fds \<Rightarrow> fds" where
  "step E Pull s = FDS_read E s"
| "step E (Destroy err) s = FDS_destroy err s"
| "step E (Tick ok) s = resume E ok (task s) s"

fun run :: "env \<Rightarrow> event list \<Rightarrow> fds \<Rightarrow> fds" where
  "run E [] s = s"
| "run E (e # es) s = run E es (step E e s)"

text \<open>The constructor: \<open>super(); this.iterator = iterator; this.boundary = ...\<close>\<close>

definition FormDataStream :: "env \<Rightarrow> (string \<times> jsval) list \<Rightarrow> fds" where
  "FormDataStream E it =
     (let s = \<lparr>iterator = it, boundary = [], kReading = False, kReadNext = False,
                kOnceResume = NoWaiter, kChunkBuffer = [], pushed = [], task = NoTask,
                calls = 0, pulled = 0\<rparr>;
          (b, s) = generateBoundary E s
      in s\<lparr>boundary := b\<rparr>)"

section \<open>The dispatcher\<close>

text \<open>
  \<open>formData\<close> is a plain object, given by its entries in the order \<open>Object.entries\<close>
  lists them; \<open>formData.type\<close> is then the value of the entry named \<open>type\<close>. An absent
  \<open>type\<close> argument is \<open>Undefined\<close>.
\<close>

datatype body = Text string | Stream fds

record serialized =
  body :: body
  header :: string
  warning :: "string option"

fun entriesLoop :: "env \<Rightarrow> (string \<times> jsval) list \<Rightarrow> string list \<Rightarrow> string list" where
  "entriesLoop E [] result = result"
| "entriesLoop E ((key, v) # it) result =
     entriesLoop E it
       (result @ [encodeURIComponent key @ ''='' @ encodeURIComponent (toString E v)])"

definition serializeFormData :: "env \<Rightarrow> (string \<times> jsval) list \<Rightarrow> jsval \<Rightarrow> serialized" where
  "serializeFormData E formData type_arg =
     (let type = (if type_arg = Undefined
                  then (case map_of formData ''type'' of None \<Rightarrow> Undefined | Some v \<Rightarrow> v)
                  else type_arg)
      in
        if type = Str ''multipart/form-data'' then
          (let formDataStream = FormDataStream E formData
           in \<lparr>body = Stream formDataStream,
               header = ''multipart/form-data; boundary='' @ boundary formDataStream
                          @ ''; charset=UTF-8'',
               warning = None\<rparr>)
        else
          \<lparr>body = Text (join ''&'' (entriesLoop E formData [])),
           header = ''application/x-www-form-urlencoded; charset=UTF-8'',
           warning =
             (if type = Str ''application/x-www-form-urlencoded'' \<or> \<not> truthy type then None
              else Some (''Unknown type '' @ toString E type
                         @ '' will be treated as application/x-www-form-urlencoded.''))\<rparr>)"

text \<open>The bytes a sequence of \<open>push\<close> calls puts into the stream.\<close>

fun chunkBytes :: "chunk \<Rightarrow> bytes" where
  "chunkBytes (Chunk (Str s)) = s"
| "chunkBytes (Chunk (Buffer b)) = b"
| "chunkBytes c = []"

definition outputBytes :: "fds \<Rightarrow> bytes" where
  "outputBytes s = concat (map chunkBytes (pushed s))"

definition ended :: "fds \<Rightarrow> bool" where
  "ended s = (EOF \<in> set (pushed s))"

section \<open>Reference notions\<close>

subsection \<open>What the specification asks for\<close>

text \<open>
  The query string: the pairs \<open>key=value\<close>, both sides percent-encoded, joined by
  \<open>&\<close> in the order of the entries.
\<close>

fun amp_join :: "string list \<Rightarrow> string" where
  "amp_join [] = []"
| "amp_join [x] = x"
| "amp_join (x # y # ys) = x @ ''&'' @ amp_join (y # ys)"

definition urlencoded_pairs :: "(string \<times> string) list \<Rightarrow> string" where
  "urlencoded_pairs kvs =
     amp_join (map (\<lambda>(k, v). encodeURIComponent k @ ''='' @ encodeURIComponent v) kvs)"

definition text_fields :: "(string \<times> string) list \<Rightarrow> (string \<times> jsval) list" where
  "text_fields kvs = map (\<lambda>(k, v). (k, Str v)) kvs"

text \<open>The example of the specification: one field \<open>file\<close> with a 3-byte buffer.\<close>

definition exampleField :: "(string \<times> jsval) list" where
  "exampleField =
     [(''file'', Obj (Buffer ''abc'')
         \<lparr>filename = Some ''f.txt'', contentType = Some ''text/plain'', path = None\<rparr>)]"

definition exampleBody :: "string \<Rightarrow> bytes" where
  "exampleBody b =
     ''--'' @ b @ lineBreak
     @ ''Content-Disposition: form-data; name='' @ dq @ ''file'' @ dq
     @ ''; filename='' @ dq @ ''f.txt'' @ dq @ lineBreak
     @ ''Content-Type: text/plain'' @ lineBreak
     @ lineBreak
     @ ''abc'' @ lineBreak
     @ ''--'' @ b @ ''--''"

text \<open>
  The value \<open>readNext\<close> hands to \<open>streamFileField\<close> for a field that is not a list
  (\<open>content.source || content\<close>), the error \<open>streamFileField\<close> raises for a value it
  refuses, and the head of the frame of a field that has a file name.
\<close>

definition fieldSource :: "jsval \<Rightarrow> jsval" where
  "fieldSource content = (if truthy (prop_source content) then prop_source content else content)"

definition invalidSource :: "jsval \<Rightarrow> error" where
  "invalidSource file = (if truthy file then NonReadable file else AssertionError)"

definition is_Array :: "jsval \<Rightarrow> bool" where
  "is_Array v = (case v of Arr xs \<Rightarrow> True | _ \<Rightarrow> False)"

definition namedHead :: "string \<Rightarrow> string \<Rightarrow> string \<Rightarrow> string" where
  "namedHead b name fn =
     ''--'' @ b @ lineBreak
     @ ''Content-Disposition: form-data; name='' @ dq @ encodeURIComponent name @ dq
     @ ''; filename='' @ dq @ encodeURIComponent fn @ dq @ lineBreak"











subsection \<open>States of the scheduler\<close>

text \<open>
  The error a production is failing with: the promise that \<open>streamFileField\<close> or
  \<open>readNext\<close> awaits is rejected, or \<open>readNext\<close> itself is.
\<close>

definition failure :: "fds \<Rightarrow> error option" where
  "failure s =
     (case task s of
        Settled (Some e) fr \<Rightarrow> Some e
      | AwaitResume (Rejected e) u fr \<Rightarrow> Some e
      | Failed e \<Rightarrow> Some e
      | _ \<Rightarrow> None)"

text \<open>
  The state in which the next resumption completes the production cycle, as it stands at
  the test of \<open>kReadNext\<close>: after a field that is not a list, or after the last item of
  a list, when the closing delimiter of the nested part has gone to the accumulator.
\<close>

definition completion :: "fds \<Rightarrow> fds option" where
  "completion s =
     (case task s of
        Settled None Top \<Rightarrow> Some s
      | Settled None (InList name sub idx []) \<Rightarrow>
          Some (pushChunk lineBreak (pushChunk (''--'' @ sub @ ''--'') s))
      | _ \<Rightarrow> None)"




text \<open>
  For the invariants: the tasks a synchronous run of the frame writer can leave behind,
  the fields it leaves alone, the state and the task of its outcome, the states reached
  from the constructor, and the tasks that only a pull or nothing at all can move.
\<close>

definition active :: "task \<Rightarrow> bool" where
  "active t = (case t of Settled r fr \<Rightarrow> True | Draining u fr \<Rightarrow> True | Failed e \<Rightarrow> True
               | _ \<Rightarrow> False)"

definition same_flags :: "fds \<Rightarrow> fds \<Rightarrow> bool" where
  "same_flags s s' =
     (kReading s' = kReading s \<and> kReadNext s' = kReadNext s
      \<and> kOnceResume s' = kOnceResume s \<and> iterator s' = iterator s
      \<and> boundary s' = boundary s \<and> pulled s' = pulled s)"

definition flowState :: "fds flow \<Rightarrow> fds" where
  "flowState f = (case f of Suspend s \<Rightarrow> s | Proceed s \<Rightarrow> s)"

definition flowTask :: "task \<Rightarrow> fds flow \<Rightarrow> bool" where
  "flowTask t f = (case f of Suspend s \<Rightarrow> active (task s) | Proceed s \<Rightarrow> task s = t)"

definition wf :: "fds \<Rightarrow> bool" where
  "wf s =
     ((kReading s \<or> task s = NoTask)
      \<and> (kOnceResume s = Armed) =
          (case task s of AwaitResume Pending u fr \<Rightarrow> True | _ \<Rightarrow> False))"

definition stalled :: "task \<Rightarrow> bool" where
  "stalled t =
     (case t of
        AwaitResume Pending u fr \<Rightarrow> True
      | AwaitResume (Rejected e) u fr \<Rightarrow> True
      | Settled (Some e) fr \<Rightarrow> True
      | Failed e \<Rightarrow> True
      | _ \<Rightarrow> False)"

subsection \<open>Sample inputs\<close>

text \<open>
  A platform to evaluate on: every random byte of the k-th call is the byte k, Buffers
  hold ASCII text, and \<open>basename\<close> is unbound, as it is in the file. The first two
  boundaries it gives.
\<close>

definition sampleEnv :: env where
  "sampleEnv =
     \<lparr>randomBytes = (\<lambda>k. replicate 20 (char_of k)),
      bufferToString = (\<lambda>b. b),
      basename = (\<lambda>p. Inl ReferenceError)\<rparr>"

definition sampleBoundary :: string where
  "sampleBoundary = ''----------------AAAAAAAAAAAAAAAAAAAAAAAAAAA=''"


text \<open>
  A stream of two chunks before a text field; three text fields; a list of a string, a
  stream of two chunks with a file name, and a Buffer with a content type.
\<close>

definition streamField :: "(string \<times> jsval) list" where
  "streamField =
     [(''f'', Readable \<lparr>filename = Some ''n.bin'', contentType = None, path = None\<rparr>
                \<lparr>chunks = [''x'', ''y''], ending = Ends\<rparr>),
      (''g'', Str ''z'')]"

definition threeFields :: "(string \<times> jsval) list" where
  "threeFields = [(''a'', Str ''1''), (''b'', Str ''2''), (''c'', Str ''3'')]"


section \<open>The query-string encoding\<close>

lemma entriesLoop_acc:
  "entriesLoop E (text_fields kvs) acc =
     acc @ map (\<lambda>(k, v). encodeURIComponent k @ ''='' @ encodeURIComponent v) kvs"
  by (induction kvs arbitrary: acc) (auto simp: text_fields_def)

lemma join_from_acc: "join_from sep xs r = r @ concat (map (\<lambda>x. sep @ x) xs)"
  by (induction xs arbitrary: r) auto

lemma amp_join_Cons: "amp_join (x # xs) = x @ concat (map (\<lambda>y. ''&'' @ y) xs)"
  by (induction xs arbitrary: x) auto

lemma join_amp: "join ''&'' xs = amp_join xs"
  by (cases xs) (simp_all add: join_def join_from_acc amp_join_Cons)

lemma map_of_text_fields:
  "k \<notin> fst ` set kvs \<Longrightarrow> map_of (text_fields kvs) k = None"
  by (induction kvs) (auto simp: text_fields_def)

text \<open>
  C2. For a mapping of text values only, the query-string encoding returns the
  \<open>&\<close>-joined percent-encoded pairs \<open>key=value\<close> in iteration order and the header
  \<open>application/x-www-form-urlencoded; charset=UTF-8\<close>, without a warning: when the
  encoding is named, and when no type is given and no field is called \<open>type\<close>.
\<close>

theorem querystring_scalar_fields:
  "serializeFormData E (text_fields kvs) (Str ''application/x-www-form-urlencoded'') =
     \<lparr>body = Text (urlencoded_pairs kvs),
      header = ''application/x-www-form-urlencoded; charset=UTF-8'',
      warning = None\<rparr>
   \<and> (''type'' \<notin> fst ` set kvs \<longrightarrow>
        serializeFormData E (text_fields kvs) Undefined =
          \<lparr>body = Text (urlencoded_pairs kvs),
           header = ''application/x-www-form-urlencoded; charset=UTF-8'',
           warning = None\<rparr>)"
  by (auto simp: serializeFormData_def entriesLoop_acc[of E kvs "[]", simplified] join_amp
      urlencoded_pairs_def truthy_def map_of_text_fields)

text \<open>The example of the specification: \<open>{a: "1"}\<close> gives the body \<open>a=1\<close>.\<close>

theorem querystring_scalar_fields_witness:
  "serializeFormData sampleEnv [(''a'', Str ''1'')] (Str ''application/x-www-form-urlencoded'') =
     \<lparr>body = Text ''a=1'',
      header = ''application/x-www-form-urlencoded; charset=UTF-8'', warning = None\<rparr>
   \<and> serializeFormData sampleEnv [(''a'', Str ''1'')] Undefined =
     \<lparr>body = Text ''a=1'',
      header = ''application/x-www-form-urlencoded; charset=UTF-8'', warning = None\<rparr>"
  using querystring_scalar_fields [of sampleEnv "[(''a'', ''1'')]"]
  by (simp add: text_fields_def urlencoded_pairs_def encodeURIComponent_def encode_char_def
      unreserved_def)

text \<open>
  C3. An array-valued field is not flattened by the query-string encoding: the array is
  converted to one string, its elements joined by a comma, and that string is
  percent-encoded as a single value. \<open>{a: ["1", "2"]}\<close> gives \<open>a=1%2C2\<close>; an object
  value gives \<open>%5Bobject%20Object%5D\<close>.
\<close>

theorem querystring_array_as_one_unit:
  "body (serializeFormData E [(''a'', Arr [Str ''1'', Str ''2''])]
           (Str ''application/x-www-form-urlencoded'')) = Text ''a=1%2C2''
   \<and> body (serializeFormData E [(''obj'', Obj Undefined a)]
           (Str ''application/x-www-form-urlencoded'')) = Text ''obj=%5Bobject%20Object%5D''"
  by (simp add: serializeFormData_def join_def encodeURIComponent_def encode_char_def
      unreserved_def hex_digit_def)

section \<open>The multipart encoding of the example\<close>

lemmas sync_defs =
  readNext_def writeEntry_def streamFileField_def resolveFilename_def afterField_def
  FDS_read_def push_def pushChunk_def flushChunks_def generateBoundary_def
  truthy_def truthy_str_def has_length_def is_Readable_def prop_source_def get_attrs_def
  str_or_def defaultContentType_def defaultStreamContentType_def Let_def

lemmas enc_defs = encodeURIComponent_def encode_char_def unreserved_def hex_digit_def

lemma sample_boundary:
  "boundary (FormDataStream sampleEnv it) = ''----------------AAAAAAAAAAAAAAAAAAAAAAAAAAA=''"
  by code_simp

text \<open>
  C1. For the one-field example the dispatcher returns the stream and the header
  \<open>multipart/form-data; boundary=<token>; charset=UTF-8\<close>, and the bytes pushed into the
  stream are the one frame and the closing delimiter, with the boundary of the header;
  both when the consumer pulls once per production and when its second pull arrives
  while the first production is in flight.
\<close>

theorem multipart_example:
  "serializeFormData E exampleField (Str ''multipart/form-data'') =
     \<lparr>body = Stream (FormDataStream E exampleField),
      header = ''multipart/form-data; boundary='' @ boundary (FormDataStream E exampleField)
                 @ ''; charset=UTF-8'',
      warning = None\<rparr>
   \<and> outputBytes (run E [Pull, Tick ok, Pull] (FormDataStream E exampleField)) =
       exampleBody (boundary (FormDataStream E exampleField))
   \<and> ended (run E [Pull, Tick ok, Pull] (FormDataStream E exampleField))
   \<and> outputBytes (run E [Pull, Pull, Tick ok] (FormDataStream E exampleField)) =
       exampleBody (boundary (FormDataStream E exampleField))
   \<and> ended (run E [Pull, Pull, Tick ok] (FormDataStream E exampleField))"
  by (simp add: serializeFormData_def FormDataStream_def exampleField_def exampleBody_def
      outputBytes_def ended_def sync_defs enc_defs)

theorem multipart_example_witness:
  "header (serializeFormData sampleEnv exampleField (Str ''multipart/form-data'')) =
     ''multipart/form-data; boundary=----------------AAAAAAAAAAAAAAAAAAAAAAAAAAA=; charset=UTF-8''
   \<and> outputBytes (run sampleEnv [Pull, Tick True, Pull] (FormDataStream sampleEnv exampleField)) =
       exampleBody ''----------------AAAAAAAAAAAAAAAAAAAAAAAAAAA=''"
  using multipart_example [of sampleEnv True] by (simp add: sample_boundary)

section \<open>Productions that fail\<close>

text \<open>
  Once a production is failing, \<open>kReading\<close> stays set and no event takes an entry,
  pushes a chunk or reads from upstream.
\<close>

lemma drainer_rejects:
  "\<not> has_length v \<Longrightarrow> \<not> is_Readable v \<Longrightarrow>
   streamFileField v ct fr s = s\<lparr>task := Settled (Some (invalidSource v)) fr\<rparr>"
  by (cases v) (auto simp: streamFileField_def invalidSource_def has_length_def
      is_Readable_def truthy_def)

lemma failure_step:
  assumes "kReading s" and "failure s = Some e"
  shows "kReading (step E ev s) \<and> failure (step E ev s) = Some e
         \<and> pushed (step E ev s) = pushed s \<and> iterator (step E ev s) = iterator s
         \<and> pulled (step E ev s) = pulled s \<and> kChunkBuffer (step E ev s) = kChunkBuffer s"
proof (cases ev)
  case Pull
  with assms show ?thesis
    by (auto simp: FDS_read_def failure_def settle_def
        split: slot.splits task.splits option.splits pstate.splits)
next
  case (Destroy err)
  with assms show ?thesis
    by (auto simp: FDS_destroy_def failure_def settle_def
        split: slot.splits task.splits option.splits pstate.splits)
next
  case (Tick ok)
  with assms show ?thesis
    by (auto simp: failure_def split: task.splits option.splits pstate.splits)
qed

lemma failure_run:
  "kReading s \<Longrightarrow> failure s = Some e \<Longrightarrow>
   kReading (run E evs s) \<and> failure (run E evs s) = Some e
   \<and> pushed (run E evs s) = pushed s \<and> iterator (run E evs s) = iterator s
   \<and> pulled (run E evs s) = pulled s \<and> kChunkBuffer (run E evs s) = kChunkBuffer s"
proof (induction evs arbitrary: s)
  case Nil
  then show ?case by simp
next
  case (Cons ev evs)
  from failure_step[OF Cons.prems, of E ev] Cons.IH[of "step E ev s"]
  show ?case by simp
qed

lemma failed_run:
  "kReading s \<Longrightarrow> task s = Failed e \<Longrightarrow> task (run E evs s) = Failed e"
proof (induction evs arbitrary: s)
  case Nil
  then show ?case by simp
next
  case (Cons ev evs)
  have "task (step E ev s) = Failed e \<and> kReading (step E ev s)"
    using Cons.prems
    by (cases ev) (auto simp: FDS_read_def FDS_destroy_def settle_def split: slot.splits)
  with Cons.IH show ?case by simp
qed

text \<open>What a pull in the idle state does with a field that is not a list.\<close>

lemma start_named:
  assumes "iterator s = (name, content) # rest" and "\<not> kReading s"
    and "content \<noteq> Undefined"
    and "is_Readable content \<or> truthy (prop_source content)"
    and "resolveFilename E (get_attrs content) name = Inr fn"
  shows "step E Pull s =
           streamFileField (fieldSource content) (contentType (get_attrs content)) Top
             (s\<lparr>kReading := True, iterator := rest,
                kChunkBuffer := kChunkBuffer s @ namedHead (boundary s) name fn\<rparr>)"
  using assms
  by (auto simp: FDS_read_def readNext_def writeEntry_def pushChunk_def Let_def
      fieldSource_def namedHead_def)

lemma start_plain:
  assumes "iterator s = (name, content) # rest" and "\<not> kReading s"
    and "content \<noteq> Undefined"
    and "\<not> is_Readable content" and "\<not> truthy (prop_source content)"
    and "\<not> is_Array content"
  shows "step E Pull s =
           streamFileField content None Top
             (s\<lparr>kReading := True, iterator := rest,
                kChunkBuffer := kChunkBuffer s @ ''--'' @ boundary s @ lineBreak
                  @ ''Content-Disposition: form-data; name='' @ dq
                  @ encodeURIComponent name @ dq @ lineBreak\<rparr>)"
  using assms
  by (cases content)
     (auto simp: FDS_read_def readNext_def writeEntry_def pushChunk_def Let_def is_Array_def)

section \<open>Frames of named sources\<close>

lemma sample_basename: "basename sampleEnv p = Inl ReferenceError"
  by (simp add: sampleEnv_def)

lemma sample_stream:
  "FormDataStream sampleEnv it =
      \<lparr>iterator = it, boundary = sampleBoundary, kReading = False, kReadNext = False,
       kOnceResume = NoWaiter, kChunkBuffer = [], pushed = [], task = NoTask,
       calls = Suc 0, pulled = 0\<rparr>"
  using sample_boundary[of it]
  by (simp add: FormDataStream_def generateBoundary_def sampleBoundary_def)

text \<open>
  C4, as amended. For a field whose value is a Readable or carries a \<open>source\<close>, with no
  content type given and a file name that is given or that \<open>basename\<close> returns, the
  header block flushed for the field ends with \<open>Content-Type: application/octet-stream\<close>
  when the source is a Readable, and with \<open>Content-Type: text/plain\<close>, followed by the
  payload and a line break, when the source has a non-zero length (a non-empty string or
  Buffer).
\<close>

theorem named_source_default_type:
  assumes "iterator s = (name, content) # rest" and "\<not> kReading s"
    and "is_Readable content \<or> truthy (prop_source content)"
    and "\<not> truthy_str (contentType (get_attrs content))"
    and "resolveFilename E (get_attrs content) name = Inr fn"
  shows "(is_Readable (fieldSource content) \<longrightarrow>
            pushed (step E Pull s) =
              pushed s @ [Chunk (Str (kChunkBuffer s @ namedHead (boundary s) name fn
                @ ''Content-Type: application/octet-stream'' @ lineBreak @ lineBreak))])
       \<and> (has_length (fieldSource content) \<longrightarrow>
            pushed (step E Pull s) =
              pushed s @ [Chunk (Str (kChunkBuffer s @ namedHead (boundary s) name fn
                @ ''Content-Type: text/plain'' @ lineBreak @ lineBreak)),
                Chunk (fieldSource content), Chunk (Str lineBreak)])"
proof -
  have ne: "content \<noteq> Undefined"
    using assms(3) by (auto simp: is_Readable_def prop_source_def truthy_def)
  have ct: "str_or (contentType (get_attrs content)) d = d" for d
    using assms(4) by (auto simp: str_or_def truthy_str_def split: option.splits)
  show ?thesis
    unfolding start_named[OF assms(1,2) ne assms(3,5)]
    by (cases "fieldSource content")
       (auto simp: streamFileField_def ct push_def pushChunk_def flushChunks_def Let_def
        has_length_def is_Readable_def truthy_def defaultContentType_def
        defaultStreamContentType_def)
qed

theorem named_source_default_type_witness:
  "pushed (step sampleEnv Pull (FormDataStream sampleEnv
     [(''f'', Readable \<lparr>filename = Some ''n.bin'', contentType = None, path = None\<rparr>
                \<lparr>chunks = [''x''], ending = Ends\<rparr>)])) =
     [Chunk (Str (namedHead sampleBoundary ''f'' ''n.bin''
        @ ''Content-Type: application/octet-stream'' @ lineBreak @ lineBreak))]
   \<and> pushed (step sampleEnv Pull (FormDataStream sampleEnv
     [(''f'', Obj (Str ''abc'') \<lparr>filename = Some ''f.txt'', contentType = None, path = None\<rparr>)])) =
     [Chunk (Str (namedHead sampleBoundary ''f'' ''f.txt''
        @ ''Content-Type: text/plain'' @ lineBreak @ lineBreak)),
      Chunk (Str ''abc''), Chunk (Str lineBreak)]"
proof -
  let ?r = "Readable \<lparr>filename = Some ''n.bin'', contentType = None, path = None\<rparr>
                \<lparr>chunks = [''x''], ending = Ends\<rparr>"
  let ?o = "Obj (Str ''abc'') \<lparr>filename = Some ''f.txt'', contentType = None, path = None\<rparr>"
  have a: "pushed (step sampleEnv Pull (FormDataStream sampleEnv [(''f'', ?r)])) =
     [Chunk (Str (namedHead sampleBoundary ''f'' ''n.bin''
        @ ''Content-Type: application/octet-stream'' @ lineBreak @ lineBreak))]"
    using named_source_default_type
      [of "FormDataStream sampleEnv [(''f'', ?r)]" "''f''" ?r "[]" sampleEnv "''n.bin''"]
    by (simp add: sample_stream is_Readable_def get_attrs_def truthy_str_def resolveFilename_def
        str_or_def fieldSource_def prop_source_def truthy_def)
  have b: "pushed (step sampleEnv Pull (FormDataStream sampleEnv [(''f'', ?o)])) =
     [Chunk (Str (namedHead sampleBoundary ''f'' ''f.txt''
        @ ''Content-Type: text/plain'' @ lineBreak @ lineBreak)),
      Chunk (Str ''abc''), Chunk (Str lineBreak)]"
    using named_source_default_type
      [of "FormDataStream sampleEnv [(''f'', ?o)]" "''f''" ?o "[]" sampleEnv "''f.txt''"]
    by (simp add: sample_stream is_Readable_def get_attrs_def truthy_str_def resolveFilename_def
        str_or_def fieldSource_def prop_source_def truthy_def has_length_def)
  from a b show ?thesis by simp
qed

text \<open>
  C4 as stated fails: \<open>{f: {source: "abc", filename: "f.txt"}}\<close> has no content type and
  its frame carries \<open>text/plain\<close>, not \<open>application/octet-stream\<close>.
\<close>

theorem named_source_text_plain_counterexample:
  "outputBytes (run sampleEnv [Pull] (FormDataStream sampleEnv
     [(''f'', Obj (Str ''abc'') \<lparr>filename = Some ''f.txt'', contentType = None, path = None\<rparr>)])) =
     namedHead sampleBoundary ''f'' ''f.txt''
       @ ''Content-Type: text/plain'' @ lineBreak @ lineBreak @ ''abc'' @ lineBreak
   \<and> outputBytes (run sampleEnv [Pull] (FormDataStream sampleEnv
     [(''f'', Obj (Str ''abc'') \<lparr>filename = Some ''f.txt'', contentType = None, path = None\<rparr>)])) \<noteq>
     namedHead sampleBoundary ''f'' ''f.txt''
       @ ''Content-Type: application/octet-stream'' @ lineBreak @ lineBreak @ ''abc'' @ lineBreak"
proof -
  show ?thesis
    by (simp add: sample_stream outputBytes_def sync_defs namedHead_def)
qed

section \<open>Invalid sources\<close>

lemma invalid_field_fails:
  assumes "iterator s = (name, content) # rest" and "\<not> kReading s"
    and "content \<noteq> Undefined" and "\<not> is_Array content"
    and "truthy (prop_source content) \<longrightarrow>
           (\<exists>fn. resolveFilename E (get_attrs content) name = Inr fn)"
    and "\<not> has_length (fieldSource content)" and "\<not> is_Readable (fieldSource content)"
  shows "task (step E Pull s) = Settled (Some (invalidSource (fieldSource content))) Top
       \<and> task (run E (Pull # Tick ok # evs) s) = Failed (invalidSource (fieldSource content))
       \<and> pushed (run E (Pull # evs) s) = pushed s
       \<and> iterator (run E (Pull # evs) s) = rest"
proof -
  have nr: "\<not> is_Readable content"
    using assms(7) by (auto simp: fieldSource_def is_Readable_def truthy_def prop_source_def
        split: jsval.splits if_splits)
  have st: "task (step E Pull s) = Settled (Some (invalidSource (fieldSource content))) Top
       \<and> kReading (step E Pull s) \<and> pushed (step E Pull s) = pushed s
       \<and> iterator (step E Pull s) = rest"
  proof (cases "truthy (prop_source content)")
    case True
    with assms(5) obtain fn where "resolveFilename E (get_attrs content) name = Inr fn"
      by blast
    from start_named[OF assms(1,2,3) _ this] True assms(6,7) show ?thesis
      by (simp add: drainer_rejects)
  next
    case False
    then have "fieldSource content = content" by (simp add: fieldSource_def)
    with start_plain[OF assms(1,2,3) nr False assms(4)] assms(6,7) show ?thesis
      by (simp add: drainer_rejects)
  qed
  then have f: "failure (step E Pull s) = Some (invalidSource (fieldSource content))"
    by (simp add: failure_def)
  have t: "task (step E (Tick ok) (step E Pull s)) = Failed (invalidSource (fieldSource content))
      \<and> kReading (step E (Tick ok) (step E Pull s))"
    using st by simp
  from failed_run[of "step E (Tick ok) (step E Pull s)" _ E evs] t
    failure_run[of "step E Pull s" _ E evs] st f
  show ?thesis by simp
qed



lemma start_unresolved:
  assumes "iterator s = (name, content) # rest" and "\<not> kReading s"
    and "truthy (prop_source content)"
    and "resolveFilename E (get_attrs content) name = Inl e"
  shows "task (step E Pull s) = Failed e \<and> kReading (step E Pull s)
         \<and> pushed (step E Pull s) = pushed s"
proof -
  from assms(3) have "content \<noteq> Undefined" by (auto simp: prop_source_def truthy_def)
  with assms show ?thesis
    by (simp add: FDS_read_def readNext_def writeEntry_def pushChunk_def Let_def)
qed

text \<open>
  C10. A field whose payload is the empty string or a zero-length Buffer, given directly
  or as the \<open>source\<close> of an object, makes the production fail and nothing is pushed for
  it: the empty string fails the assertion; the empty Buffer, and the object whose
  \<open>source\<close> is the empty string (a falsy \<open>source\<close>, so the object itself is taken as
  the payload), are refused as non-Readable; for the object with an empty Buffer the
  file name is resolved first, and an error of \<open>basename\<close> comes before the refusal.
\<close>

theorem empty_payload_rejected:
  assumes "iterator s = (name, content) # rest" and "\<not> kReading s"
    and "content = Str [] \<or> content = Buffer [] \<or> content = Obj (Str []) a
         \<or> content = Obj (Buffer []) a"
  shows "task (run E (Pull # Tick ok # evs) s) =
           Failed (if content = Str [] then AssertionError
                   else if content = Buffer [] then NonReadable (Buffer [])
                   else if content = Obj (Str []) a then NonReadable (Obj (Str []) a)
                   else (case resolveFilename E a name of
                           Inl e \<Rightarrow> e | Inr fn \<Rightarrow> NonReadable (Buffer [])))
       \<and> pushed (run E (Pull # Tick ok # evs) s) = pushed s"
proof (cases "content = Obj (Buffer []) a \<and> (\<exists>e. resolveFilename E a name = Inl e)")
  case True
  then obtain e where c: "content = Obj (Buffer []) a" and r: "resolveFilename E a name = Inl e"
    by blast
  have "task (step E Pull s) = Failed e \<and> kReading (step E Pull s)
         \<and> pushed (step E Pull s) = pushed s"
    using start_unresolved[OF assms(1,2), of E e] c r
    by (simp add: prop_source_def truthy_def get_attrs_def)
  then have "task (run E (Tick ok # evs) (step E Pull s)) = Failed e
      \<and> pushed (run E (Tick ok # evs) (step E Pull s)) = pushed s"
    using failed_run[of "step E Pull s" e E "Tick ok # evs"]
      failure_run[of "step E Pull s" e E "Tick ok # evs"]
    by (simp add: failure_def)
  with c r show ?thesis by simp
next
  case False
  then have res: "truthy (prop_source content) \<longrightarrow>
           (\<exists>fn. resolveFilename E (get_attrs content) name = Inr fn)"
    using assms(3)
    by (cases "resolveFilename E a name")
       (auto simp: prop_source_def truthy_def get_attrs_def)
  have "task (run E (Pull # Tick ok # evs) s) = Failed (invalidSource (fieldSource content))
       \<and> pushed (run E (Pull # Tick ok # evs) s) = pushed s"
    using assms(3) res invalid_field_fails[OF assms(1,2), of E ok evs]
      invalid_field_fails[OF assms(1,2), of E ok "Tick ok # evs"]
    by (auto simp: is_Array_def fieldSource_def prop_source_def truthy_def
        has_length_def is_Readable_def)
  moreover have "invalidSource (fieldSource content) =
           (if content = Str [] then AssertionError
                   else if content = Buffer [] then NonReadable (Buffer [])
                   else if content = Obj (Str []) a then NonReadable (Obj (Str []) a)
                   else (case resolveFilename E a name of
                           Inl e \<Rightarrow> e | Inr fn \<Rightarrow> NonReadable (Buffer [])))"
    using assms(3) False
    by (cases "resolveFilename E a name")
       (auto simp: invalidSource_def fieldSource_def prop_source_def truthy_def)
  ultimately show ?thesis by simp
qed

theorem empty_payload_rejected_witness:
  "task (run sampleEnv [Pull, Tick True] (FormDataStream sampleEnv [(''a'', Str [])])) =
     Failed AssertionError
   \<and> task (run sampleEnv [Pull, Tick True] (FormDataStream sampleEnv [(''a'', Buffer [])])) =
     Failed (NonReadable (Buffer []))
   \<and> pushed (run sampleEnv [Pull, Tick True] (FormDataStream sampleEnv [(''a'', Buffer [])])) = []
   \<and> task (run sampleEnv [Pull, Tick True] (FormDataStream sampleEnv
        [(''a'', Obj (Buffer []) \<lparr>filename = None, contentType = None, path = None\<rparr>)])) =
     Failed ReferenceError"
  using empty_payload_rejected
      [of "FormDataStream sampleEnv [(''a'', Str [])]" "''a''" "Str []" "[]" _ sampleEnv True "[]"]
    empty_payload_rejected
      [of "FormDataStream sampleEnv [(''a'', Buffer [])]" "''a''" "Buffer []" "[]" _ sampleEnv
          True "[]"]
    empty_payload_rejected
      [of "FormDataStream sampleEnv
             [(''a'', Obj (Buffer []) \<lparr>filename = None, contentType = None, path = None\<rparr>)]"
          "''a''" "Obj (Buffer []) \<lparr>filename = None, contentType = None, path = None\<rparr>" "[]"
          "\<lparr>filename = None, contentType = None, path = None\<rparr>" sampleEnv True "[]"]
  by (simp add: sample_stream resolveFilename_def truthy_str_def str_or_def sample_basename)

section \<open>Invariants of the scheduler\<close>

text \<open>
  A synchronous run of the frame writer changes the accumulator, the pushed chunks and
  the task only; it leaves an active task behind or proceeds to the test of
  \<open>kReadNext\<close>.
\<close>

lemma same_flags_refl [simp]: "same_flags s s"
  by (simp add: same_flags_def)

lemma same_flags_pushChunk [simp]: "same_flags s (pushChunk c t) = same_flags s t"
  by (simp add: same_flags_def pushChunk_def)

lemma task_pushChunk [simp]: "task (pushChunk c t) = task t"
  by (simp add: pushChunk_def)

lemma same_flags_task [simp]: "same_flags s (t\<lparr>task := x\<rparr>) = same_flags s t"
  by (simp add: same_flags_def)

lemma same_flags_generateBoundary [simp]:
  "same_flags s (snd (generateBoundary E t)) = same_flags s t"
  by (simp add: same_flags_def generateBoundary_def)

lemma task_generateBoundary [simp]: "task (snd (generateBoundary E t)) = task t"
  by (simp add: generateBoundary_def)

lemma same_flags_streamFileField [simp]:
  "same_flags s (streamFileField v ct fr t) = same_flags s t"
  by (cases v)
     (auto simp: streamFileField_def same_flags_def push_def pushChunk_def
       flushChunks_def Let_def)

lemma active_streamFileField [simp]: "active (task (streamFileField v ct fr t))"
  by (cases v) (auto simp: streamFileField_def active_def Let_def)

lemma active_simps [simp]:
  "active (Failed e)" "active (Settled r fr)" "active (Draining u fr)"
  "\<not> active NoTask" "\<not> active (AwaitResume p u fr)"
  by (simp_all add: active_def)

lemma listLoop_same [simp]:
  "same_flags s (flowState (listLoop E name sub idx items t)) = same_flags s t"
  by (cases items) (auto simp: Let_def flowState_def split: sum.splits)

lemma listLoop_task [simp]: "flowTask (task t) (listLoop E name sub idx items t)"
  by (cases items) (auto simp: Let_def flowTask_def split: sum.splits)

lemma writeEntry_same [simp]:
  "same_flags s (flowState (writeEntry E name content t)) = same_flags s t"
proof -
  have l: "same_flags s (flowState (listLoop E name sub idx items u)) = same_flags s u"
    for sub idx items u by simp
  show ?thesis
    unfolding writeEntry_def Let_def
    by (simp split: sum.splits jsval.splits add: l split_def)
       (auto simp: flowState_def)
qed

lemma writeEntry_task [simp]: "flowTask (task t) (writeEntry E name content t)"
proof -
  have l: "task u = task t \<Longrightarrow> flowTask (task t) (listLoop E name sub idx items u)"
    for sub idx items u using listLoop_task[of u E name sub idx items] by simp
  show ?thesis
    unfolding writeEntry_def Let_def
    by (simp split: sum.splits jsval.splits add: l split_def)
       (auto simp: flowTask_def)
qed

lemma readNextFrom_flags:
  "kReadNext (readNextFrom E it s) = kReadNext s
   \<and> kOnceResume (readNextFrom E it s) = kOnceResume s
   \<and> pulled (readNextFrom E it s) = pulled s
   \<and> boundary (readNextFrom E it s) = boundary s
   \<and> (if kReading (readNextFrom E it s) then active (task (readNextFrom E it s))
       else task (readNextFrom E it s) = NoTask)"
proof (induction it arbitrary: s)
  case Nil
  show ?case by (simp add: push_def Let_def)
next
  case (Cons entry rest)
  obtain name content where e: "entry = (name, content)" by (cases entry)
  let ?s = "s\<lparr>kReading := True, iterator := rest\<rparr>"
  let ?w = "writeEntry E name content ?s"
  have sf: "same_flags ?s (flowState ?w)" by simp
  have ft: "flowTask (task s) ?w" using writeEntry_task[of ?s E name content] by simp
  show ?case
  proof (cases ?w)
    case (Suspend s')
    with sf ft show ?thesis
      by (simp add: e flowState_def flowTask_def same_flags_def)
  next
    case (Proceed s')
    with sf ft Cons.IH[of s'] show ?thesis
      by (simp add: e flowState_def flowTask_def same_flags_def)
  qed
qed

lemma readNext_flags:
  "kReadNext (readNext E s) = kReadNext s
   \<and> kOnceResume (readNext E s) = kOnceResume s
   \<and> pulled (readNext E s) = pulled s
   \<and> boundary (readNext E s) = boundary s
   \<and> (if kReading (readNext E s) then active (task (readNext E s))
       else task (readNext E s) = NoTask)"
  unfolding readNext_def by (rule readNextFrom_flags)

text \<open>
  \<open>readNext\<close> in the shape of the source: the recursion of \<open>readNextFrom\<close> on the
  rest of the list is the call \<open>this.readNext()\<close> on the advanced iterator.
\<close>

lemma readNext_entry:
  assumes "iterator s = (name, content) # rest"
  shows "readNext E s =
           (case writeEntry E name content (s\<lparr>kReading := True, iterator := rest\<rparr>) of
              Suspend s' \<Rightarrow> s'
            | Proceed s' \<Rightarrow> afterField E s')"
proof -
  let ?s = "s\<lparr>kReading := True, iterator := rest\<rparr>"
  have "same_flags ?s (flowState (writeEntry E name content ?s))" by simp
  then have "iterator (flowState (writeEntry E name content ?s)) = rest"
    by (simp add: same_flags_def)
  with assms show ?thesis
    by (cases "writeEntry E name content ?s")
       (simp_all add: readNext_def afterField_def flowState_def)
qed

text \<open>
  In every state reached from the constructor, a task is in flight only while
  \<open>kReading\<close> is set, and the slot of \<open>onceResume\<close> holds a pending promise exactly
  when the drainer awaits it.
\<close>

lemma wf_init: "wf (FormDataStream E fd)"
  by (simp add: wf_def FormDataStream_def generateBoundary_def)

lemma not_armed_active: "active t \<Longrightarrow> (case t of AwaitResume Pending u fr \<Rightarrow> True | _ \<Rightarrow> False) = False"
  by (cases t) (auto simp: active_def)

lemma wf_readNext:
  assumes "kOnceResume s \<noteq> Armed"
  shows "wf (readNext E s)"
  using readNext_flags[of E s] assms
  by (cases "kReading (readNext E s)") (auto simp: wf_def not_armed_active)

lemma wf_afterField:
  assumes "kOnceResume s \<noteq> Armed"
  shows "wf (afterField E s)"
  using wf_readNext[OF assms, of E] assms by (simp add: afterField_def wf_def)

lemma wf_suspended:
  assumes "same_flags s s'" "active (task s')" "kReading s" "kOnceResume s \<noteq> Armed"
  shows "wf s'"
  using assms by (auto simp: wf_def same_flags_def not_armed_active)

lemma wf_step: "wf s \<Longrightarrow> wf (step E ev s)"
proof (cases ev)
  case Pull
  assume w: "wf s"
  show ?thesis
  proof (cases "kReading s")
    case True
    with w Pull show ?thesis
      by (auto simp: FDS_read_def wf_def settle_def
          split: slot.splits task.splits pstate.splits)
  next
    case False
    with w have "kOnceResume s \<noteq> Armed" by (auto simp: wf_def)
    from wf_readNext[OF this, of E] False Pull show ?thesis by (simp add: FDS_read_def)
  qed
next
  case (Destroy err)
  assume "wf s"
  with Destroy show ?thesis
    by (auto simp: FDS_destroy_def wf_def settle_def
        split: slot.splits task.splits pstate.splits)
next
  case (Tick ok)
  assume w: "wf s"
  show ?thesis
  proof (cases "task s")
    case NoTask
    with w Tick show ?thesis by simp
  next
    case (Failed e)
    with w Tick show ?thesis by simp
  next
    case (Settled r fr)
    with w have na: "kOnceResume s \<noteq> Armed" and kr: "kReading s" by (auto simp: wf_def)
    show ?thesis
    proof (cases r)
      case (Some e)
      with Settled Tick na kr show ?thesis by (simp add: wf_def)
    next
      case None
      show ?thesis
      proof (cases fr)
        case Top
        with None Settled Tick wf_afterField[OF na, of E] show ?thesis by simp
      next
        case (InList name sub idx items)
        let ?l = "listLoop E name sub idx items s"
        have sf: "same_flags s (flowState ?l)" by simp
        have ft: "flowTask (task s) ?l" by simp
        show ?thesis
        proof (cases ?l)
          case (Suspend s')
          with sf ft have "wf s'"
            using wf_suspended[of s s'] kr na by (simp add: flowState_def flowTask_def)
          with Suspend InList None Settled Tick show ?thesis by simp
        next
          case (Proceed s')
          with sf na have "kOnceResume s' \<noteq> Armed"
            by (simp add: flowState_def same_flags_def)
          from wf_afterField[OF this, of E] Proceed InList None Settled Tick
          show ?thesis by simp
        qed
      qed
    qed
  next
    case (Draining u fr)
    with w Tick show ?thesis
      by (auto simp: wf_def push_def onceResume_def Let_def
          split: list.splits ending.splits slot.splits)
  next
    case (AwaitResume p u fr)
    with w Tick show ?thesis
      by (cases p) (auto simp: wf_def)
  qed
qed

lemma wf_run: "wf s \<Longrightarrow> wf (run E evs s)"
  by (induction evs arbitrary: s) (auto simp: wf_step)

lemma suspended_is_armed:
  assumes "s = run E evs0 (FormDataStream E fd)" and "task s = AwaitResume Pending u fr"
  shows "kReading s \<and> kOnceResume s = Armed"
  using wf_run[OF wf_init, of E evs0 E fd] assms by (auto simp: wf_def)

section \<open>Backpressure and destruction\<close>

lemma stalled_step:
  assumes "stalled (task s)" and "ev \<noteq> Pull"
  shows "stalled (task (step E ev s)) \<and> pulled (step E ev s) = pulled s
         \<and> pushed (step E ev s) = pushed s"
proof (cases ev)
  case Pull
  with assms show ?thesis by simp
next
  case (Destroy err)
  with assms show ?thesis
    by (auto simp: FDS_destroy_def stalled_def settle_def
        split: slot.splits task.splits option.splits pstate.splits)
next
  case (Tick ok)
  with assms show ?thesis
    by (auto simp: stalled_def split: task.splits option.splits pstate.splits)
qed

lemma stalled_run:
  "stalled (task s) \<Longrightarrow> Pull \<notin> set evs \<Longrightarrow>
   stalled (task (run E evs s)) \<and> pulled (run E evs s) = pulled s
   \<and> pushed (run E evs s) = pushed s"
proof (induction evs arbitrary: s)
  case Nil
  then show ?case by simp
next
  case (Cons ev evs)
  then have "ev \<noteq> Pull" and "Pull \<notin> set evs" by auto
  from stalled_step[OF Cons.prems(1) this(1), of E] Cons.IH[OF _ this(2), of "step E ev s"]
  show ?case by simp
qed

text \<open>
  C7. When the push of a chunk of a streamed source reports the downstream buffer as full,
  the drainer takes no second chunk from the upstream source as long as no pull arrives:
  whatever resumptions and destructions follow, the count of chunks taken from upstream
  stays at that of the chunk just pushed, and nothing more is pushed.
\<close>

theorem no_read_while_full:
  assumes "task s = Draining u fr" and "chunks u = c # cs" and "Pull \<notin> set evs"
  shows "pushed (step E (Tick False) s) = pushed s @ [Chunk (Buffer c)]
       \<and> pulled (step E (Tick False) s) = Suc (pulled s)
       \<and> pulled (run E (Tick False # evs) s) = Suc (pulled s)
       \<and> pushed (run E (Tick False # evs) s) = pushed s @ [Chunk (Buffer c)]"
proof -
  have st: "stalled (task (step E (Tick False) s))
      \<and> pushed (step E (Tick False) s) = pushed s @ [Chunk (Buffer c)]
      \<and> pulled (step E (Tick False) s) = Suc (pulled s)"
    using assms(1,2)
    by (auto simp: stalled_def push_def onceResume_def Let_def split: slot.splits)
  with stalled_run[of "step E (Tick False) s" evs E] assms(3) show ?thesis by simp
qed

lemma sample_draining:
  "run sampleEnv [Pull] (FormDataStream sampleEnv streamField) =
     \<lparr>iterator = [(''g'', Str ''z'')], boundary = sampleBoundary, kReading = True,
      kReadNext = False, kOnceResume = NoWaiter, kChunkBuffer = [],
      pushed = [Chunk (Str (namedHead sampleBoundary ''f'' ''n.bin''
                  @ ''Content-Type: application/octet-stream'' @ lineBreak @ lineBreak))],
      task = Draining \<lparr>chunks = [''x'', ''y''], ending = Ends\<rparr> Top,
      calls = Suc 0, pulled = 0\<rparr>"
  by (simp add: sample_stream streamField_def sync_defs namedHead_def)

theorem no_read_while_full_witness:
  "pulled (run sampleEnv [Pull, Tick False, Tick True, Destroy TypeError, Tick True, Tick True]
             (FormDataStream sampleEnv streamField)) = 1
   \<and> pushed (run sampleEnv [Pull, Tick False, Tick True, Destroy TypeError, Tick True, Tick True]
             (FormDataStream sampleEnv streamField)) =
       [Chunk (Str (namedHead sampleBoundary ''f'' ''n.bin''
                  @ ''Content-Type: application/octet-stream'' @ lineBreak @ lineBreak)),
        Chunk (Buffer ''x'')]"
proof -
  let ?s = "run sampleEnv [Pull] (FormDataStream sampleEnv streamField)"
  have "pulled (run sampleEnv [Tick False, Tick True, Destroy TypeError, Tick True, Tick True] ?s) = 1
    \<and> pushed (run sampleEnv [Tick False, Tick True, Destroy TypeError, Tick True, Tick True] ?s) =
       [Chunk (Str (namedHead sampleBoundary ''f'' ''n.bin''
                  @ ''Content-Type: application/octet-stream'' @ lineBreak @ lineBreak)),
        Chunk (Buffer ''x'')]"
    using no_read_while_full
      [of ?s "\<lparr>chunks = [''x'', ''y''], ending = Ends\<rparr>" Top "''x''" "[''y'']"
          "[Tick True, Destroy TypeError, Tick True, Tick True]" sampleEnv]
    by (simp only: sample_draining) simp
  then show ?thesis by simp
qed

text \<open>
  C8. In every state the stream reaches from its construction in which the drainer is
  suspended on a backpressure wait, destroying the stream rejects the awaited promise;
  two resumptions later the production has failed with the reason of the destruction;
  and whatever events follow the destruction, no entry is taken from the iterator, no
  chunk is pushed and none is taken from an upstream source.
\<close>

theorem destroy_while_suspended:
  assumes "s = run E evs0 (FormDataStream E fd)" and "task s = AwaitResume Pending u fr"
  shows "task (step E (Destroy err) s) = AwaitResume (Rejected err) u fr
       \<and> task (run E [Destroy err, Tick ok, Tick ok'] s) = Failed err
       \<and> pushed (run E (Destroy err # evs) s) = pushed s
       \<and> iterator (run E (Destroy err # evs) s) = iterator s
       \<and> pulled (run E (Destroy err # evs) s) = pulled s
       \<and> failure (run E (Destroy err # evs) s) = Some err"
proof -
  from suspended_is_armed[OF assms] have k: "kReading s" and a: "kOnceResume s = Armed"
    by simp_all
  let ?d = "step E (Destroy err) s"
  have d: "task ?d = AwaitResume (Rejected err) u fr \<and> kReading ?d \<and> pushed ?d = pushed s
      \<and> iterator ?d = iterator s \<and> pulled ?d = pulled s"
    using k a assms(2) by (simp add: FDS_destroy_def settle_def)
  then have f: "failure ?d = Some err" by (simp add: failure_def)
  from d have u: "task (run E [Tick ok, Tick ok'] ?d) = Failed err" by simp
  from failure_run[of ?d err E evs] d f u show ?thesis by simp
qed

lemma sample_suspended:
  "run sampleEnv [Pull, Tick False] (FormDataStream sampleEnv streamField) =
     \<lparr>iterator = [(''g'', Str ''z'')], boundary = sampleBoundary, kReading = True,
      kReadNext = False, kOnceResume = Armed, kChunkBuffer = [],
      pushed = [Chunk (Str (namedHead sampleBoundary ''f'' ''n.bin''
                  @ ''Content-Type: application/octet-stream'' @ lineBreak @ lineBreak)),
                Chunk (Buffer ''x'')],
      task = AwaitResume Pending \<lparr>chunks = [''y''], ending = Ends\<rparr> Top,
      calls = Suc 0, pulled = Suc 0\<rparr>"
proof -
  have "run sampleEnv [Pull, Tick False] (FormDataStream sampleEnv streamField) =
      step sampleEnv (Tick False) (run sampleEnv [Pull] (FormDataStream sampleEnv streamField))"
    by simp
  then show ?thesis
    by (simp only: sample_draining) (simp add: push_def onceResume_def)
qed

theorem destroy_while_suspended_witness:
  "task (run sampleEnv [Pull, Tick False, Destroy (DestroyReason None), Tick True, Tick True]
           (FormDataStream sampleEnv streamField)) = Failed (DestroyReason None)
   \<and> iterator (run sampleEnv [Pull, Tick False, Destroy (DestroyReason None), Pull, Tick True,
                 Pull, Tick True, Pull] (FormDataStream sampleEnv streamField)) =
       [(''g'', Str ''z'')]
   \<and> pulled (run sampleEnv [Pull, Tick False, Destroy (DestroyReason None), Pull, Tick True,
                 Pull, Tick True, Pull] (FormDataStream sampleEnv streamField)) = 1"
proof -
  let ?s = "run sampleEnv [Pull, Tick False] (FormDataStream sampleEnv streamField)"
  have t: "task ?s = AwaitResume Pending \<lparr>chunks = [''y''], ending = Ends\<rparr> Top"
    by (simp only: sample_suspended) simp
  have i: "iterator ?s = [(''g'', Str ''z'')]" "pulled ?s = 1"
    by (simp_all only: sample_suspended) simp_all
  from destroy_while_suspended[OF refl t, of "DestroyReason None" True True
      "[Pull, Tick True, Pull, Tick True, Pull]"] i
  show ?thesis by simp
qed

section \<open>Deferred pulls\<close>

text \<open>No step clears \<open>kReadNext\<close>; in the idle state only a pull starts a production.\<close>

lemma kReadNext_step: "kReadNext s \<Longrightarrow> kReadNext (step E ev s)"
proof (cases ev)
  case Pull
  assume "kReadNext s"
  with Pull readNext_flags[of E s] show ?thesis
    by (auto simp: FDS_read_def split: slot.splits)
next
  case (Destroy err)
  assume "kReadNext s"
  with Destroy show ?thesis by (auto simp: FDS_destroy_def split: slot.splits)
next
  case (Tick ok)
  assume k: "kReadNext s"
  have af: "kReadNext t \<Longrightarrow> kReadNext (afterField E t)" for t
    using readNext_flags[of E t] by (simp add: afterField_def)
  show ?thesis
  proof (cases "task s")
    case (Settled r fr)
    show ?thesis
    proof (cases r)
      case (Some e)
      with Settled Tick k show ?thesis by simp
    next
      case None
      show ?thesis
      proof (cases fr)
        case Top
        with None Settled Tick af[OF k] show ?thesis by simp
      next
        case (InList name sub idx items)
        have "same_flags s (flowState (listLoop E name sub idx items s))" by simp
        with k have "kReadNext (flowState (listLoop E name sub idx items s))"
          by (simp add: same_flags_def)
        with InList None Settled Tick af show ?thesis
          by (auto simp: flowState_def split: flow.splits)
      qed
    qed
  next
    case (Draining u fr)
    with Tick k show ?thesis
      by (auto simp: push_def onceResume_def Let_def
          split: list.splits ending.splits slot.splits)
  next
    case (AwaitResume p u fr)
    with Tick k show ?thesis by (cases p) auto
  qed (use Tick k in auto)
qed

lemma kReadNext_run: "kReadNext s \<Longrightarrow> kReadNext (run E evs s)"
  by (induction evs arbitrary: s) (auto simp: kReadNext_step)

lemma idle_step:
  assumes "task s = NoTask" and "ev \<noteq> Pull"
  shows "task (step E ev s) = NoTask \<and> kReading (step E ev s) = kReading s
         \<and> pushed (step E ev s) = pushed s \<and> iterator (step E ev s) = iterator s"
  using assms by (cases ev) (auto simp: FDS_destroy_def settle_def split: slot.splits)

lemma idle_run:
  "task s = NoTask \<Longrightarrow> Pull \<notin> set evs \<Longrightarrow>
   task (run E evs s) = NoTask \<and> kReading (run E evs s) = kReading s
   \<and> pushed (run E evs s) = pushed s \<and> iterator (run E evs s) = iterator s"
proof (induction evs arbitrary: s)
  case Nil
  then show ?case by simp
next
  case (Cons ev evs)
  then have "ev \<noteq> Pull" and "Pull \<notin> set evs" by auto
  from idle_step[OF Cons.prems(1) this(1), of E] Cons.IH[OF _ this(2), of "step E ev s"]
  show ?case by simp
qed

lemma completion_step:
  assumes "completion s = Some c"
  shows "step E (Tick ok) s =
           (if kReadNext s then readNext E c else c\<lparr>kReading := False, task := NoTask\<rparr>)
         \<and> kReadNext c = kReadNext s \<and> pushed c = pushed s \<and> iterator c = iterator s"
  using assms
  by (auto simp: completion_def afterField_def pushChunk_def
      split: task.splits option.splits frame.splits list.splits)

text \<open>
  C6, as amended. A pull that arrives while a production is in flight starts no second
  production: it takes no entry and pushes nothing; it resolves the wait of a drainer
  suspended on backpressure if there is one, and records a deferred request
  (\<open>kReadNext\<close>) otherwise. When a production cycle completes, the next cycle starts at
  once if the flag is set, which it is when a pull was deferred during the completed
  cycle; with the flag unset the scheduler goes idle and, until a pull arrives, takes no
  entry and pushes nothing.
\<close>

theorem scheduler_deferral:
  "(kReading s \<longrightarrow>
      iterator (step E Pull s) = iterator s \<and> pushed (step E Pull s) = pushed s
      \<and> kChunkBuffer (step E Pull s) = kChunkBuffer s \<and> pulled (step E Pull s) = pulled s
      \<and> kReading (step E Pull s)
      \<and> (case kOnceResume s of
            NoWaiter \<Rightarrow> kReadNext (step E Pull s) \<and> task (step E Pull s) = task s
          | Armed \<Rightarrow> kReadNext (step E Pull s) = kReadNext s
                     \<and> task (step E Pull s) = settle Resolved (task s)
          | Stale e \<Rightarrow> kReadNext (step E Pull s) = kReadNext s
                       \<and> task (step E Pull s) = task s))
   \<and> (completion s = Some c \<longrightarrow>
        step E (Tick ok) s =
          (if kReadNext s then readNext E c else c\<lparr>kReading := False, task := NoTask\<rparr>))
   \<and> (kReading s \<and> kOnceResume s = NoWaiter
        \<and> iterator (run E evs (step E Pull s)) = iterator s
        \<and> completion (run E evs (step E Pull s)) = Some c \<longrightarrow>
        step E (Tick ok) (run E evs (step E Pull s)) = readNext E c)
   \<and> (completion s = Some c \<and> \<not> kReadNext s \<and> Pull \<notin> set evs' \<longrightarrow>
        task (run E (Tick ok # evs') s) = NoTask
        \<and> \<not> kReading (run E (Tick ok # evs') s)
        \<and> pushed (run E (Tick ok # evs') s) = pushed s
        \<and> iterator (run E (Tick ok # evs') s) = iterator s)"
proof -
  have p1: "kReading s \<longrightarrow>
      iterator (step E Pull s) = iterator s \<and> pushed (step E Pull s) = pushed s
      \<and> kChunkBuffer (step E Pull s) = kChunkBuffer s \<and> pulled (step E Pull s) = pulled s
      \<and> kReading (step E Pull s)
      \<and> (case kOnceResume s of
            NoWaiter \<Rightarrow> kReadNext (step E Pull s) \<and> task (step E Pull s) = task s
          | Armed \<Rightarrow> kReadNext (step E Pull s) = kReadNext s
                     \<and> task (step E Pull s) = settle Resolved (task s)
          | Stale e \<Rightarrow> kReadNext (step E Pull s) = kReadNext s
                       \<and> task (step E Pull s) = task s)"
    by (auto simp: FDS_read_def split: slot.splits)
  have p2: "completion s = Some c \<longrightarrow>
        step E (Tick ok) s =
          (if kReadNext s then readNext E c else c\<lparr>kReading := False, task := NoTask\<rparr>)"
    using completion_step[of s c E ok] by simp
  have p3: "kReading s \<and> kOnceResume s = NoWaiter
        \<and> iterator (run E evs (step E Pull s)) = iterator s
        \<and> completion (run E evs (step E Pull s)) = Some c \<longrightarrow>
        step E (Tick ok) (run E evs (step E Pull s)) = readNext E c"
  proof
    assume h: "kReading s \<and> kOnceResume s = NoWaiter
        \<and> iterator (run E evs (step E Pull s)) = iterator s
        \<and> completion (run E evs (step E Pull s)) = Some c"
    then have "kReadNext (step E Pull s)" by (simp add: FDS_read_def)
    then have "kReadNext (run E evs (step E Pull s))" by (rule kReadNext_run)
    with completion_step[of "run E evs (step E Pull s)" c E ok] h
    show "step E (Tick ok) (run E evs (step E Pull s)) = readNext E c" by simp
  qed
  have p4: "completion s = Some c \<and> \<not> kReadNext s \<and> Pull \<notin> set evs' \<longrightarrow>
        task (run E (Tick ok # evs') s) = NoTask
        \<and> \<not> kReading (run E (Tick ok # evs') s)
        \<and> pushed (run E (Tick ok # evs') s) = pushed s
        \<and> iterator (run E (Tick ok # evs') s) = iterator s"
  proof
    assume h: "completion s = Some c \<and> \<not> kReadNext s \<and> Pull \<notin> set evs'"
    with completion_step[of s c E ok]
    have i: "step E (Tick ok) s = c\<lparr>kReading := False, task := NoTask\<rparr>"
      and c: "pushed c = pushed s" "iterator c = iterator s" by simp_all
    from idle_run[of "step E (Tick ok) s" evs' E] h i c
    show "task (run E (Tick ok # evs') s) = NoTask
        \<and> \<not> kReading (run E (Tick ok # evs') s)
        \<and> pushed (run E (Tick ok # evs') s) = pushed s
        \<and> iterator (run E (Tick ok # evs') s) = iterator s"
      by simp
  qed
  show ?thesis by (intro conjI) (rule p1, rule p2, rule p3, rule p4)
qed

lemma sample_in_flight:
  "run sampleEnv [Pull] (FormDataStream sampleEnv threeFields) =
     \<lparr>iterator = [(''b'', Str ''2''), (''c'', Str ''3'')], boundary = sampleBoundary,
      kReading = True, kReadNext = False, kOnceResume = NoWaiter, kChunkBuffer = [],
      pushed = [Chunk (Str (''--'' @ sampleBoundary @ lineBreak
                  @ ''Content-Disposition: form-data; name='' @ dq @ ''a'' @ dq @ lineBreak
                  @ ''Content-Type: text/plain'' @ lineBreak @ lineBreak)),
                Chunk (Str ''1''), Chunk (Str lineBreak)],
      task = Settled None Top, calls = Suc 0, pulled = 0\<rparr>"
  by (simp add: sample_stream threeFields_def sync_defs enc_defs)

theorem scheduler_deferral_witness:
  "kReadNext (run sampleEnv [Pull, Pull] (FormDataStream sampleEnv threeFields))
   \<and> iterator (run sampleEnv [Pull, Pull, Tick True] (FormDataStream sampleEnv threeFields)) =
       [(''c'', Str ''3'')]
   \<and> task (run sampleEnv [Pull, Tick True, Tick True, Destroy TypeError]
             (FormDataStream sampleEnv threeFields)) = NoTask
   \<and> iterator (run sampleEnv [Pull, Tick True, Tick True, Destroy TypeError]
             (FormDataStream sampleEnv threeFields)) = [(''b'', Str ''2''), (''c'', Str ''3'')]"
proof -
  let ?s = "run sampleEnv [Pull] (FormDataStream sampleEnv threeFields)"
  let ?t = "step sampleEnv Pull ?s"
  have c: "completion ?s = Some ?s" "kReading ?s" "kOnceResume ?s = NoWaiter"
    "\<not> kReadNext ?s" "iterator ?s = [(''b'', Str ''2''), (''c'', Str ''3'')]"
    by (simp_all only: sample_in_flight) (simp_all add: completion_def)
  have c': "completion ?t = Some ?t" "iterator ?t = [(''b'', Str ''2''), (''c'', Str ''3'')]"
    by (simp_all only: sample_in_flight) (simp_all add: completion_def FDS_read_def)
  have n: "iterator (readNext sampleEnv ?t) = [(''c'', Str ''3'')]"
    by (simp only: sample_in_flight) (simp add: FDS_read_def sync_defs)
  note d = scheduler_deferral[where s = ?s and E = sampleEnv and c = ?t
      and ok = True and evs = "[]" and evs' = "[]"]
  from d c have k: "kReadNext ?t" by (simp del: step.simps run.simps)
  from d c c' have "step sampleEnv (Tick True) (run sampleEnv [] ?t) = readNext sampleEnv ?t"
    by (simp del: step.simps run.simps add: run.simps(1))
  with n have a: "iterator (step sampleEnv (Tick True) ?t) = [(''c'', Str ''3'')]"
    by (simp del: step.simps)
  from scheduler_deferral[where s = ?s and E = sampleEnv and c = ?s
      and ok = True and evs = "[]" and evs' = "[Tick True, Destroy TypeError]"] c
  have b: "task (run sampleEnv (Tick True # [Tick True, Destroy TypeError]) ?s) = NoTask
      \<and> iterator (run sampleEnv (Tick True # [Tick True, Destroy TypeError]) ?s)
          = [(''b'', Str ''2''), (''c'', Str ''3'')]"
    by (simp del: step.simps run.simps)
  from k a b show ?thesis by (simp del: step.simps)
qed

text \<open>
  C6 as stated fails: a pull that arrives while the drainer waits on backpressure is
  consumed as the resume signal and records no deferred request; the cycle then completes
  into the idle state with the second field still in the iterator.
\<close>

theorem pull_resumes_not_deferred_counterexample:
  "kReading (run sampleEnv [Pull, Tick False] (FormDataStream sampleEnv streamField))
   \<and> \<not> kReadNext (run sampleEnv [Pull, Tick False, Pull] (FormDataStream sampleEnv streamField))
   \<and> task (run sampleEnv [Pull, Tick False, Pull, Tick True, Tick True, Tick True, Tick True]
             (FormDataStream sampleEnv streamField)) = NoTask
   \<and> iterator (run sampleEnv [Pull, Tick False, Pull, Tick True, Tick True, Tick True, Tick True]
             (FormDataStream sampleEnv streamField)) = [(''g'', Str ''z'')]"
proof -
  have r: "run sampleEnv (Pull # Tick False # evs) (FormDataStream sampleEnv streamField) =
      run sampleEnv evs (run sampleEnv [Pull, Tick False] (FormDataStream sampleEnv streamField))"
    for evs by simp
  show ?thesis
    unfolding r[of "_ # _"]
    by (simp only: sample_suspended)
       (simp add: FDS_read_def settle_def push_def afterField_def)
qed

text \<open>
  The deferral flag is never cleared: one deferred pull makes every later cycle start its
  successor, here the third field without any pull during the second cycle.
\<close>

lemma stale_deferral:
  "iterator (run sampleEnv [Pull, Pull, Tick True, Tick True]
               (FormDataStream sampleEnv threeFields)) = []
   \<and> kReading (run sampleEnv [Pull, Pull, Tick True, Tick True]
               (FormDataStream sampleEnv threeFields))"
proof -
  have r: "run sampleEnv (Pull # evs) (FormDataStream sampleEnv threeFields) =
      run sampleEnv evs (run sampleEnv [Pull] (FormDataStream sampleEnv threeFields))"
    for evs by simp
  show ?thesis
    unfolding r[of "_ # _"]
    by (simp only: sample_in_flight) (simp add: sync_defs)
qed

section \<open>Frames of list fields\<close>





















end
